theory Spec2Isabelle
  imports Main "HOL-Library.Sublist"
begin

section \<open>Text as sequences of Unicode code points\<close>

text \<open>
  A Python \<open>str\<close> is a sequence of Unicode code points and \<open>len\<close> counts code points.
  The scripts work on Japanese text, so a string is modelled as a list of code points
  (natural numbers), not as a list of 8-bit characters.

  The model starts from the decoded content of a file and ends at the text written: opening,
  decoding and printing stay outside. Two scripts extract pairs, one written for UTF-8 input
  and one for Shift-JIS input; where they share a name, the definitions taken from the
  second carry the suffix \<open>_sjis\<close>. Every read of a list by index can fail, in the model
  as in the interpreter, so the functions that read by index return an error or a result.
\<close>

type_synonym ustring = "nat list"

definition ascii :: "string \<Rightarrow> ustring" where
  "ascii s = map of_char s"

definition NL :: nat where "NL = 10"       \<comment> \<open>line feed\<close>
definition CR :: nat where "CR = 13"       \<comment> \<open>carriage return\<close>
definition TAB :: nat where "TAB = 9"
definition SP :: nat where "SP = 32"
definition SEMI :: nat where "SEMI = 59"   \<comment> \<open>semicolon\<close>
definition CHU :: nat where "CHU = 0x6CE8" \<comment> \<open>the footnote label, U+6CE8\<close>
definition YAKU :: nat where "YAKU = 0x8A33" \<comment> \<open>U+8A33, first character of the translator's-note label\<close>
definition FWCOLON :: nat where "FWCOLON = 0xFF1A" \<comment> \<open>full-width colon\<close>
definition FWLPAREN :: nat where "FWLPAREN = 0xFF08" \<comment> \<open>full-width left parenthesis\<close>
definition FWEXCL :: nat where "FWEXCL = 0xFF01" \<comment> \<open>full-width exclamation mark\<close>

text \<open>
  The characters that \<open>str.strip()\<close> removes and that \<open>\s\<close> matches in a \<open>str\<close> pattern:
  both use the interpreter's Unicode whitespace table.
\<close>

definition is_space :: "nat \<Rightarrow> bool" where
  "is_space c \<longleftrightarrow>
     (9 \<le> c \<and> c \<le> 13) \<or> (28 \<le> c \<and> c \<le> 32) \<or> c = 0x85 \<or> c = 0xA0 \<or> c = 0x1680
     \<or> (0x2000 \<le> c \<and> c \<le> 0x200A) \<or> c = 0x2028 \<or> c = 0x2029 \<or> c = 0x202F
     \<or> c = 0x205F \<or> c = 0x3000"

text \<open>
  The characters that \<open>\d\<close> matches in a \<open>str\<close> pattern: the decimal digits of every script
  (Unicode category Nd). Each entry is the code point of a digit zero; the nine code points
  after it are the digits one to nine of the same script.
\<close>

definition digit_zeros :: "nat list" where
  "digit_zeros =
    [0x30, 0x660, 0x6F0, 0x7C0, 0x966, 0x9E6, 0xA66, 0xAE6, 0xB66, 0xBE6, 0xC66, 0xCE6,
     0xD66, 0xDE6, 0xE50, 0xED0, 0xF20, 0x1040, 0x1090, 0x17E0, 0x1810, 0x1946, 0x19D0,
     0x1A80, 0x1A90, 0x1B50, 0x1BB0, 0x1C40, 0x1C50, 0xA620, 0xA8D0, 0xA900, 0xA9D0,
     0xA9F0, 0xAA50, 0xABF0, 0xFF10, 0x104A0, 0x10D30, 0x11066, 0x110F0, 0x11136,
     0x111D0, 0x112F0, 0x11450, 0x114D0, 0x11650, 0x116C0, 0x11730, 0x118E0, 0x11950,
     0x11C50, 0x11D50, 0x11DA0, 0x16A60, 0x16AC0, 0x16B50, 0x1D7CE, 0x1D7D8, 0x1D7E2,
     0x1D7EC, 0x1D7F6, 0x1E140, 0x1E2F0, 0x1E950, 0x1FBF0]"

definition is_digit :: "nat \<Rightarrow> bool" where
  "is_digit c \<longleftrightarrow> list_ex (\<lambda>z. z \<le> c \<and> c < z + 10) digit_zeros"

definition is_colon :: "nat \<Rightarrow> bool" where
  \<comment> \<open>the character class of an ASCII or a full-width colon\<close>
  "is_colon c \<longleftrightarrow> c = 58 \<or> c = FWCOLON"

definition strip :: "ustring \<Rightarrow> ustring" where
  \<comment> \<open>\<open>str.strip()\<close>\<close>
  "strip s = rev (dropWhile is_space (rev (dropWhile is_space s)))"

definition startswith :: "ustring \<Rightarrow> ustring \<Rightarrow> bool" where
  "startswith s p \<longleftrightarrow> prefix p s"

fun contains_str :: "ustring \<Rightarrow> ustring \<Rightarrow> bool" where
  \<comment> \<open>\<open>sub in s\<close>\<close>
  "contains_str sub [] \<longleftrightarrow> sub = []"
| "contains_str sub (c # cs) \<longleftrightarrow> prefix sub (c # cs) \<or> contains_str sub cs"

definition ws_to_end :: "ustring \<Rightarrow> bool" where
  \<comment> \<open>the pattern tail \<open>\s*$\<close>: the rest of the string is whitespace (a final line feed,
      which \<open>$\<close> tolerates, is whitespace too)\<close>
  "ws_to_end r \<longleftrightarrow> list_all is_space r"

definition at_end :: "ustring \<Rightarrow> bool" where
  \<comment> \<open>\<open>$\<close> without MULTILINE: at the end, or before a line feed that ends the string\<close>
  "at_end r \<longleftrightarrow> r = [] \<or> r = [NL]"

section \<open>Line classification (both scripts)\<close>

definition is_jp_char :: "nat \<Rightarrow> bool" where
  "is_jp_char c \<longleftrightarrow>
     (0x3040 \<le> c \<and> c \<le> 0x309F) \<or> (0x30A0 \<le> c \<and> c \<le> 0x30FF) \<or> (0x4E00 \<le> c \<and> c \<le> 0x9FFF)"

definition is_japanese :: "ustring \<Rightarrow> bool" where
  "is_japanese text \<longleftrightarrow> list_ex is_jp_char text"

definition entity_at :: "ustring \<Rightarrow> bool" where
  \<comment> \<open>the pattern \<open>&#\d{4}\<close> matches at the head of the string\<close>
  "entity_at s \<longleftrightarrow>
     6 \<le> length s \<and> take 2 s = [38, 35] \<and> list_all is_digit (take 4 (drop 2 s))"

function remove_entities :: "ustring \<Rightarrow> ustring" where
  \<comment> \<open>\<open>re.sub(r'&#\d{4}', '', text)\<close>: leftmost matches, left to right, not overlapping\<close>
  "remove_entities [] = []"
| "remove_entities (c # cs) =
     (if entity_at (c # cs) then remove_entities (drop 5 cs) else c # remove_entities cs)"
  by pat_completeness auto
termination
  by (relation "measure length") auto

definition clean_text :: "ustring \<Rightarrow> ustring" where
  "clean_text text = strip (remove_entities text)"

section \<open>Noise lines of the UTF-8 script\<close>

definition is_rule_char :: "nat \<Rightarrow> bool" where
  \<comment> \<open>the class \<open>[-=_*]\<close>\<close>
  "is_rule_char c \<longleftrightarrow> c = 45 \<or> c = 61 \<or> c = 95 \<or> c = 42"

definition is_excl_char :: "nat \<Rightarrow> bool" where
  "is_excl_char c \<longleftrightarrow> c = 33 \<or> c = FWEXCL"

definition is_blank :: "ustring \<Rightarrow> bool" where
  \<comment> \<open>check 1, \<open>not line\<close>\<close>
  "is_blank line \<longleftrightarrow> line = []"

definition is_rule_line :: "ustring \<Rightarrow> bool" where
  \<comment> \<open>check 2, \<open>^[-=_*]{3,}$\<close>; no character of the class is a line feed, so the
      repetition takes the whole run\<close>
  "is_rule_line line \<longleftrightarrow>
     3 \<le> length (takeWhile is_rule_char line) \<and> at_end (dropWhile is_rule_char line)"

definition is_url_line :: "ustring \<Rightarrow> bool" where
  \<comment> \<open>check 3\<close>
  "is_url_line line \<longleftrightarrow>
     startswith line (ascii ''http://'') \<or> startswith line (ascii ''https://'')
     \<or> startswith line (ascii ''<http'')"

definition is_excl_line :: "ustring \<Rightarrow> bool" where
  \<comment> \<open>check 4, \<open>^[!...]+$\<close> over the ASCII and the full-width exclamation mark\<close>
  "is_excl_line line \<longleftrightarrow>
     1 \<le> length (takeWhile is_excl_char line) \<and> at_end (dropWhile is_excl_char line)"

definition is_translator_note :: "ustring \<Rightarrow> bool" where
  \<comment> \<open>check 5: the three spellings of the translator's-note label (U+8A33 U+6CE8) at the
      start of the line\<close>
  "is_translator_note line \<longleftrightarrow>
     startswith line [FWLPAREN, YAKU, CHU, FWCOLON] \<or> startswith line [40, YAKU, CHU, 58]
     \<or> startswith line [YAKU, CHU, FWCOLON]"

definition opt_colon_ws_end :: "ustring \<Rightarrow> bool" where
  \<comment> \<open>the pattern tail \<open>[:...]?\s*$\<close>\<close>
  "opt_colon_ws_end r \<longleftrightarrow>
     (case r of c # r' \<Rightarrow> is_colon c \<and> ws_to_end r' | [] \<Rightarrow> False) \<or> ws_to_end r"

definition is_bare_note_label :: "ustring \<Rightarrow> bool" where
  \<comment> \<open>check 6, first pattern: the footnote label, an optional colon, whitespace, end\<close>
  "is_bare_note_label line \<longleftrightarrow>
     (case line of c # r \<Rightarrow> c = CHU \<and> opt_colon_ws_end r | [] \<Rightarrow> False)"

definition is_numbered_note :: "ustring \<Rightarrow> bool" where
  \<comment> \<open>check 6, second pattern: the label, \<open>\s*\<close>, \<open>\d+\<close>, a colon; whitespace, digits and
      colons are disjoint classes, so each repetition takes its whole run\<close>
  "is_numbered_note line \<longleftrightarrow>
     (case line of
        c # r \<Rightarrow>
          c = CHU \<and>
          (let r1 = dropWhile is_space r
           in takeWhile is_digit r1 \<noteq> [] \<and>
              (case dropWhile is_digit r1 of d # _ \<Rightarrow> is_colon d | [] \<Rightarrow> False))
      | [] \<Rightarrow> False)"

definition is_lettered_note :: "ustring \<Rightarrow> bool" where
  \<comment> \<open>check 6, third pattern (and the second check of the Shift-JIS script): the label, a
      letter A to Z, a colon\<close>
  "is_lettered_note line \<longleftrightarrow>
     (case line of
        c # l # d # _ \<Rightarrow> c = CHU \<and> 65 \<le> l \<and> l \<le> 90 \<and> is_colon d
      | _ \<Rightarrow> False)"

definition is_number_line :: "ustring \<Rightarrow> bool" where
  \<comment> \<open>check 6, fourth pattern, \<open>^\d+\.?\s*$\<close>\<close>
  "is_number_line line \<longleftrightarrow>
     takeWhile is_digit line \<noteq> [] \<and>
     (let r = dropWhile is_digit line
      in (case r of c # r' \<Rightarrow> c = 46 \<and> ws_to_end r' | [] \<Rightarrow> False) \<or> ws_to_end r)"

definition is_version_line :: "ustring \<Rightarrow> bool" where
  \<comment> \<open>check 7 (and the last check of the Shift-JIS script)\<close>
  "is_version_line line \<longleftrightarrow>
     contains_str (ascii ''Version'') line \<and>
     (contains_str (ascii ''Page'') line \<or> contains_str (ascii ''Progress'') line)"

definition should_skip_line :: "ustring \<Rightarrow> bool" where
  "should_skip_line line0 =
     (let line = strip line0
      in if is_blank line then True
         else if is_rule_line line then True
         else if is_url_line line then True
         else if is_excl_line line then True
         else if is_translator_note line then True
         else if is_bare_note_label line then True
         else if is_numbered_note line then True
         else if is_lettered_note line then True
         else if is_number_line line then True
         else if is_version_line line then True
         else if length line \<le> 2 then True
         else False)"

section \<open>Pair reconciliation of the UTF-8 script\<close>

datatype error = IndexError

type_synonym pair = "ustring \<times> ustring"

definition index :: "'a list \<Rightarrow> nat \<Rightarrow> error + 'a" where
  \<comment> \<open>\<open>xs[i]\<close> for a non-negative \<open>i\<close>\<close>
  "index xs i = (if i < length xs then Inr (xs ! i) else Inl IndexError)"

definition classify_step :: "ustring list \<times> ustring list \<Rightarrow> ustring \<Rightarrow> ustring list \<times> ustring list" where
  \<comment> \<open>one round of the loop that fills \<open>ja_lines\<close> and \<open>en_lines\<close>\<close>
  "classify_step acc line =
     (let cleaned = clean_text line
      in if cleaned = [] then acc
         else if is_japanese cleaned then (fst acc @ [cleaned], snd acc)
         else (fst acc, snd acc @ [cleaned]))"

definition classify_lines :: "ustring list \<Rightarrow> ustring list \<times> ustring list" where
  "classify_lines lines = foldl classify_step ([], []) lines"

definition long_enough :: "pair \<Rightarrow> bool" where
  \<comment> \<open>\<open>len(ja) >= 3 and len(en) >= 3\<close>\<close>
  "long_enough p \<longleftrightarrow> 3 \<le> length (fst p) \<and> 3 \<le> length (snd p)"

fun pair_loop :: "ustring list \<Rightarrow> ustring list \<Rightarrow> nat list \<Rightarrow> pair list \<Rightarrow> error + pair list" where
  \<comment> \<open>\<open>for i in range(min_len)\<close>, reading both lists by index\<close>
  "pair_loop ja_lines en_lines [] pairs = Inr pairs"
| "pair_loop ja_lines en_lines (i # rest) pairs =
     (case index ja_lines i of
        Inl e \<Rightarrow> Inl e
      | Inr ja \<Rightarrow>
          (case index en_lines i of
             Inl e \<Rightarrow> Inl e
           | Inr en \<Rightarrow>
               pair_loop ja_lines en_lines rest
                 (if long_enough (ja, en) then pairs @ [(ja, en)] else pairs)))"

fun join_sp :: "ustring list \<Rightarrow> ustring" where
  \<comment> \<open>\<open>' '.join(xs)\<close>\<close>
  "join_sp [] = []"
| "join_sp [x] = x"
| "join_sp (x # y # ys) = x @ [SP] @ join_sp (y # ys)"

function fix_semicolons :: "ustring \<Rightarrow> ustring" where
  \<comment> \<open>\<open>re.sub(r';\s*', '; ', en)\<close>\<close>
  "fix_semicolons [] = []"
| "fix_semicolons (c # cs) =
     (if c = SEMI then [SEMI, SP] @ fix_semicolons (dropWhile is_space cs)
      else c # fix_semicolons cs)"
  by pat_completeness auto
termination
  by (relation "measure length") (auto simp: length_dropWhile_le less_Suc_eq_le)

definition reconcile :: "ustring list \<Rightarrow> ustring list \<Rightarrow> error + pair list" where
  \<comment> \<open>the three cases of \<open>extract_pairs_from_block\<close>, on the two classified lists\<close>
  "reconcile ja_lines en_lines =
     (if length ja_lines = length en_lines then
        Inr (filter long_enough (zip ja_lines en_lines))
      else if length ja_lines = 1 \<and> length en_lines > 1 then
        (case index ja_lines 0 of
           Inl e \<Rightarrow> Inl e
         | Inr ja \<Rightarrow>
             (let en = fix_semicolons (join_sp en_lines)
              in Inr (if long_enough (ja, en) then [(ja, en)] else [])))
      else if length ja_lines > 0 \<and> length en_lines > 0 then
        pair_loop ja_lines en_lines [0 ..< min (length ja_lines) (length en_lines)] []
      else Inr [])"

definition extract_pairs_from_block :: "ustring list \<Rightarrow> error + pair list" where
  "extract_pairs_from_block lines0 =
     (let lines = filter (\<lambda>line. \<not> should_skip_line line) lines0
      in if lines = [] then Inr []
         else reconcile (fst (classify_lines lines)) (snd (classify_lines lines)))"

section \<open>Block segmentation of the UTF-8 script\<close>

fun replace_crlf :: "ustring \<Rightarrow> ustring" where
  \<comment> \<open>\<open>content.replace('\r\n', '\n')\<close>\<close>
  "replace_crlf (a # b # cs) =
     (if a = CR \<and> b = NL then NL # replace_crlf cs else a # replace_crlf (b # cs))"
| "replace_crlf cs = cs"

definition replace_char :: "nat \<Rightarrow> nat \<Rightarrow> ustring \<Rightarrow> ustring" where
  \<comment> \<open>\<open>s.replace(a, b)\<close> for single characters\<close>
  "replace_char a b s = map (\<lambda>c. if c = a then b else c) s"

definition normalize_newlines :: "ustring \<Rightarrow> ustring" where
  "normalize_newlines content = replace_char CR NL (replace_crlf content)"

definition opt_char :: "(nat \<Rightarrow> bool) \<Rightarrow> (ustring \<Rightarrow> bool) \<Rightarrow> ustring \<Rightarrow> bool" where
  \<comment> \<open>an optional character of class \<open>p\<close>, then the rest of the pattern \<open>k\<close>\<close>
  "opt_char p k r \<longleftrightarrow> (case r of c # r' \<Rightarrow> p c \<and> k r' | [] \<Rightarrow> False) \<or> k r"

definition ws_then_nl :: "ustring \<Rightarrow> bool" where
  \<comment> \<open>the pattern \<open>\s*\n\<close>: a line feed inside the leading run of whitespace\<close>
  "ws_then_nl r \<longleftrightarrow> NL \<in> set (takeWhile is_space r)"

definition notes1_at :: "ustring \<Rightarrow> bool" where
  \<comment> \<open>\<open>notes_pattern1\<close> up to its final \<open>.*\<close> matches at the head of the string\<close>
  "notes1_at s \<longleftrightarrow>
     (case s of
        a # b # c # d # r \<Rightarrow> a = NL \<and> b = NL \<and> c = CHU \<and> is_colon d \<and> ws_then_nl r
      | _ \<Rightarrow> False)"

definition letter_ci :: "nat \<Rightarrow> nat \<Rightarrow> bool" where
  \<comment> \<open>a lower-case ASCII letter of the pattern against a character of the text under
      IGNORECASE; the letter s also matches U+017F, the long s\<close>
  "letter_ci l c \<longleftrightarrow> c = l \<or> c + 32 = l \<or> (l = 115 \<and> c = 0x17F)"

definition notes2_at :: "ustring \<Rightarrow> bool" where
  \<comment> \<open>\<open>notes_pattern2\<close> up to its final \<open>.*\<close> matches at the head of the string\<close>
  "notes2_at s \<longleftrightarrow>
     (case s of
        a # b # c1 # c2 # c3 # c4 # r \<Rightarrow>
          a = NL \<and> b = NL \<and> letter_ci 110 c1 \<and> letter_ci 111 c2 \<and> letter_ci 116 c3
          \<and> letter_ci 101 c4 \<and> opt_char (letter_ci 115) (opt_char is_colon ws_then_nl) r
      | _ \<Rightarrow> False)"

fun cut_from :: "(ustring \<Rightarrow> bool) \<Rightarrow> ustring \<Rightarrow> ustring" where
  \<comment> \<open>\<open>re.sub(p + '.*', '', s, flags=re.DOTALL)\<close> for a pattern \<open>p\<close> that matches no empty
      string: the text before the leftmost match of \<open>p\<close>\<close>
  "cut_from m [] = []"
| "cut_from m (c # cs) = (if m (c # cs) then [] else c # cut_from m cs)"

definition remove_notes :: "ustring \<Rightarrow> ustring" where
  "remove_notes content = cut_from notes2_at (cut_from notes1_at content)"

definition blank_run_at :: "ustring \<Rightarrow> bool" where
  \<comment> \<open>the pattern \<open>\n\n+\<close> matches at the head of the string\<close>
  "blank_run_at s \<longleftrightarrow> (case s of a # b # _ \<Rightarrow> a = NL \<and> b = NL | _ \<Rightarrow> False)"

function split_blocks :: "ustring \<Rightarrow> ustring \<Rightarrow> ustring list" where
  \<comment> \<open>\<open>re.split(r'\n\n+', content)\<close>; the first argument is the piece being read\<close>
  "split_blocks cur [] = [cur]"
| "split_blocks cur (c # cs) =
     (if blank_run_at (c # cs) then cur # split_blocks [] (dropWhile (\<lambda>x. x = NL) cs)
      else split_blocks (cur @ [c]) cs)"
  by pat_completeness auto
termination
  by (relation "measure (\<lambda>(cur, s). length s)") (auto simp: length_dropWhile_le less_Suc_eq_le)

fun split_on :: "nat \<Rightarrow> ustring \<Rightarrow> ustring \<Rightarrow> ustring list" where
  \<comment> \<open>\<open>s.split(sep)\<close> for a single character; the second argument is the piece being read\<close>
  "split_on sep cur [] = [cur]"
| "split_on sep cur (c # cs) =
     (if c = sep then cur # split_on sep [] cs else split_on sep (cur @ [c]) cs)"

definition block_lines :: "ustring \<Rightarrow> ustring list" where
  \<comment> \<open>\<open>[line.strip() for line in block.split('\n') if line.strip()]\<close>\<close>
  "block_lines block = map strip (filter (\<lambda>line. strip line \<noteq> []) (split_on NL [] block))"

fun extend_pairs :: "ustring list \<Rightarrow> pair list \<Rightarrow> error + pair list" where
  \<comment> \<open>the loop over the blocks of a file\<close>
  "extend_pairs [] pairs = Inr pairs"
| "extend_pairs (block # blocks) pairs =
     (case extract_pairs_from_block (block_lines block) of
        Inl e \<Rightarrow> Inl e
      | Inr block_pairs \<Rightarrow> extend_pairs blocks (pairs @ block_pairs))"

definition extract_pairs_from_file :: "ustring \<Rightarrow> error + pair list" where
  \<comment> \<open>from the decoded content of the file on\<close>
  "extract_pairs_from_file content0 =
     (let content = remove_notes (normalize_newlines content0);
          blocks = split_blocks [] content
      in extend_pairs blocks [])"

section \<open>The Shift-JIS script\<close>

definition is_translator_note_sjis :: "ustring \<Rightarrow> bool" where
  "is_translator_note_sjis line \<longleftrightarrow>
     startswith line [FWLPAREN, YAKU, CHU, FWCOLON] \<or> startswith line [40, YAKU, CHU, 58]"

definition is_digits_line :: "ustring \<Rightarrow> bool" where
  \<comment> \<open>\<open>^\d+$\<close>\<close>
  "is_digits_line line \<longleftrightarrow>
     takeWhile is_digit line \<noteq> [] \<and> at_end (dropWhile is_digit line)"

definition should_skip_line_sjis :: "ustring \<Rightarrow> bool" where
  "should_skip_line_sjis line0 =
     (let line = strip line0
      in if is_blank line then True
         else if is_translator_note_sjis line then True
         else if is_lettered_note line then True
         else if is_digits_line (strip line) then True
         else if is_version_line line then True
         else False)"

fun pair_loop_sjis :: "ustring list \<Rightarrow> ustring list \<Rightarrow> nat list \<Rightarrow> pair list \<Rightarrow> error + pair list" where
  \<comment> \<open>\<open>for i in range(min_len)\<close> of the Shift-JIS script, which adds to the pairs of the
      whole file\<close>
  "pair_loop_sjis ja_lines en_lines [] pairs = Inr pairs"
| "pair_loop_sjis ja_lines en_lines (i # rest) pairs =
     (case index ja_lines i of
        Inl e \<Rightarrow> Inl e
      | Inr ja \<Rightarrow>
          (case index en_lines i of
             Inl e \<Rightarrow> Inl e
           | Inr en \<Rightarrow>
               pair_loop_sjis ja_lines en_lines rest
                 (if length ja < 3 \<or> length en < 3 then pairs else pairs @ [(ja, en)])))"

definition reconcile_sjis :: "ustring list \<Rightarrow> ustring list \<Rightarrow> pair list \<Rightarrow> error + pair list" where
  "reconcile_sjis ja_lines en_lines pairs =
     pair_loop_sjis ja_lines en_lines [0 ..< min (length ja_lines) (length en_lines)] pairs"

definition block_body_sjis :: "ustring \<Rightarrow> pair list \<Rightarrow> error + pair list" where
  \<comment> \<open>one round of the loop over the blocks\<close>
  "block_body_sjis block pairs =
     (let lines = filter (\<lambda>line. \<not> should_skip_line_sjis line) (block_lines block)
      in if lines = [] then Inr pairs
         else reconcile_sjis (fst (classify_lines lines)) (snd (classify_lines lines)) pairs)"

definition sep_sjis :: "ustring \<Rightarrow> ustring option" where
  \<comment> \<open>the pattern \<open>\r?\n\r?\n+\<close> at the head of the string: the text after the match. An
      optional carriage return that is present must be taken, since the line feed that
      follows it in the pattern cannot match it.\<close>
  "sep_sjis s =
     (let s1 = (case s of c # r \<Rightarrow> if c = CR then r else s | [] \<Rightarrow> s)
      in case s1 of
           [] \<Rightarrow> None
         | a # s2 \<Rightarrow>
             if a \<noteq> NL then None
             else (let s3 = (case s2 of c # r \<Rightarrow> if c = CR then r else s2 | [] \<Rightarrow> s2)
                   in case s3 of
                        [] \<Rightarrow> None
                      | b # s4 \<Rightarrow> if b \<noteq> NL then None else Some (dropWhile (\<lambda>x. x = NL) s4)))"

function split_blocks_sjis :: "ustring \<Rightarrow> ustring \<Rightarrow> ustring list" where
  \<comment> \<open>\<open>re.split(r'\r?\n\r?\n+', content)\<close>\<close>
  "split_blocks_sjis cur [] = [cur]"
| "split_blocks_sjis cur (c # cs) =
     (case sep_sjis (c # cs) of
        Some r \<Rightarrow> cur # split_blocks_sjis [] r
      | None \<Rightarrow> split_blocks_sjis (cur @ [c]) cs)"
  by pat_completeness auto
termination
  by (relation "measure (\<lambda>(cur, s). length s)")
    (auto simp: sep_sjis_def Let_def length_dropWhile_le less_Suc_eq_le le_SucI
      split: list.splits if_splits)

fun extend_pairs_sjis :: "ustring list \<Rightarrow> pair list \<Rightarrow> error + pair list" where
  "extend_pairs_sjis [] pairs = Inr pairs"
| "extend_pairs_sjis (block # blocks) pairs =
     (case block_body_sjis block pairs of
        Inl e \<Rightarrow> Inl e
      | Inr pairs' \<Rightarrow> extend_pairs_sjis blocks pairs')"

definition extract_pairs_from_file_sjis :: "ustring \<Rightarrow> error + pair list" where
  \<comment> \<open>from the decoded content of the file on\<close>
  "extract_pairs_from_file_sjis content = extend_pairs_sjis (split_blocks_sjis [] content) []"

section \<open>Serialisation\<close>

definition sanitize :: "ustring \<Rightarrow> ustring" where
  \<comment> \<open>\<open>s.replace('\t', ' ').replace('\n', ' ')\<close>\<close>
  "sanitize s = replace_char NL SP (replace_char TAB SP s)"

definition tsv_line :: "pair \<Rightarrow> ustring" where
  \<comment> \<open>what one round of the loop of \<open>write_tsv\<close> writes\<close>
  "tsv_line p = sanitize (fst p) @ [TAB] @ sanitize (snd p) @ [NL]"

definition write_tsv :: "pair list \<Rightarrow> ustring" where
  \<comment> \<open>the text written to the file\<close>
  "write_tsv pairs = concat (map tsv_line pairs)"

definition rstrip_nl :: "ustring \<Rightarrow> ustring" where
  \<comment> \<open>\<open>line.rstrip("\n")\<close>\<close>
  "rstrip_nl line = rev (dropWhile (\<lambda>c. c = NL) (rev line))"

fun split_max :: "nat \<Rightarrow> nat \<Rightarrow> ustring \<Rightarrow> ustring \<Rightarrow> ustring list" where
  \<comment> \<open>\<open>s.split(sep, maxsplit)\<close> for a single character; the third argument is the piece
      being read\<close>
  "split_max sep 0 cur s = [cur @ s]"
| "split_max sep (Suc n) cur [] = [cur]"
| "split_max sep (Suc n) cur (c # cs) =
     (if c = sep then cur # split_max sep n [] cs else split_max sep (Suc n) (cur @ [c]) cs)"

definition tsv_parts :: "ustring \<Rightarrow> ustring list" where
  \<comment> \<open>\<open>parts\<close> of the conversion script, for one line of the file\<close>
  "tsv_parts line = split_max TAB 2 [] (rstrip_nl line)"

definition json_record :: "ustring \<Rightarrow> (string \<times> ustring) list option" where
  \<comment> \<open>the object that the conversion script dumps for one line of the file, if any; a dict
      literal as an association list, keys in the order written\<close>
  "json_record line =
     (let parts = tsv_parts line
      in if length parts \<ge> 2 then Some [(''en'', parts ! 0), (''ja'', parts ! 1)] else None)"

section \<open>Sample texts\<close>

text \<open>
  Lines used to run the model: two Japanese sentences of the kind the scripts read, two
  rows of kana, and an English sentence.
\<close>

definition sample_ja :: ustring where
  "sample_ja = [0x305D, 0x306E, 0x672C, 0x3092, 0x8AAD, 0x3093, 0x3060, 0x3002]"
definition sample_en :: ustring where
  "sample_en = ascii ''I read that book.''"
definition sample_mite :: ustring where
  "sample_mite = [0x898B, 0x3066, 0x3002]"
definition sample_aiueo :: ustring where
  "sample_aiueo = [0x3042, 0x3044, 0x3046, 0x3048, 0x304A]"
definition sample_kakiku :: ustring where
  "sample_kakiku = [0x304B, 0x304D, 0x304F, 0x3051, 0x3053]"

definition sample_rule_block :: "ustring list" where
  "sample_rule_block = [ascii ''---'', [], ascii ''1.'']"

definition sample_digits_block :: ustring where
  "sample_digits_block = ascii ''12'' @ [NL] @ ascii ''abc''"

definition sample_fan_block :: ustring where
  "sample_fan_block = sample_mite @ [NL] @ ascii ''Look;'' @ [NL] @ ascii ''over there.''"

text \<open>
  A property of a merged line, used to state what the semicolon rewrite achieves: each
  semicolon is followed by exactly one space, and what follows that space is not whitespace.
\<close>

fun semis_spaced :: "ustring \<Rightarrow> bool" where
  "semis_spaced [] \<longleftrightarrow> True"
| "semis_spaced (c # cs) \<longleftrightarrow>
     (if c = SEMI
      then (case cs of
              [] \<Rightarrow> False
            | d # ds \<Rightarrow> d = SP \<and> (case ds of [] \<Rightarrow> True | e # _ \<Rightarrow> \<not> is_space e) \<and> semis_spaced ds)
      else semis_spaced cs)"

text \<open>
  The first seven noise checks of the specification, which are the tests of
  \<open>should_skip_line\<close> before its length test, on the stripped line.
\<close>

definition caught_by_checks_1_to_7 :: "ustring \<Rightarrow> bool" where
  "caught_by_checks_1_to_7 line0 \<longleftrightarrow>
     (let line = strip line0
      in is_blank line \<or> is_rule_line line \<or> is_url_line line \<or> is_excl_line line
         \<or> is_translator_note line
         \<or> is_bare_note_label line \<or> is_numbered_note line \<or> is_lettered_note line
         \<or> is_number_line line
         \<or> is_version_line line)"

definition sample_entity_line :: ustring where
  "sample_entity_line = ascii ''&#1234ab''"

definition sample_tabbed :: ustring where
  "sample_tabbed = [0x3042, 0x3044, TAB, 0x3046, 0x3048]"

text \<open>
  A text has no blank run when two line feeds never follow each other in it, that is when it
  has no empty line inside and does not begin or end with one.
\<close>

definition no_blank_run :: "ustring \<Rightarrow> bool" where
  "no_blank_run p \<longleftrightarrow> \<not> contains_str [NL, NL] p"

definition sample_single_blank :: ustring where
  "sample_single_blank = sample_ja @ [NL, NL] @ sample_en"

definition sample_paragraph :: ustring where
  "sample_paragraph = sample_ja @ [NL] @ sample_en"


definition sample_footnote :: ustring where
  "sample_footnote = sample_aiueo @ [NL] @ ascii ''note text'' @ [NL]"






definition sample_first_line_empty_doc :: ustring where
  "sample_first_line_empty_doc = [NL, CHU, FWCOLON, NL] @ sample_footnote"

definition sample_label_at_end_doc :: ustring where
  "sample_label_at_end_doc = sample_paragraph @ [NL, NL, CHU, FWCOLON]"


section \<open>Facts about the model\<close>

lemmas char_defs = NL_def CR_def TAB_def SP_def SEMI_def CHU_def YAKU_def FWCOLON_def
  FWLPAREN_def FWEXCL_def is_space_def is_digit_def digit_zeros_def is_colon_def
  is_jp_char_def is_rule_char_def is_excl_char_def ascii_def

lemmas line_defs = strip_def startswith_def ws_to_end_def at_end_def is_japanese_def
  entity_at_def clean_text_def is_blank_def is_rule_line_def is_url_line_def
  is_excl_line_def is_translator_note_def opt_colon_ws_end_def is_bare_note_label_def
  is_numbered_note_def is_lettered_note_def is_number_line_def is_version_line_def
  should_skip_line_def is_translator_note_sjis_def is_digits_line_def
  should_skip_line_sjis_def

lemmas sample_defs = sample_ja_def sample_en_def sample_mite_def sample_aiueo_def sample_kakiku_def
  sample_rule_block_def sample_digits_block_def
lemmas block_defs = classify_lines_def classify_step_def block_lines_def long_enough_def

subsection \<open>Classification and the pairing loops\<close>

lemma classify_lines_acc:
  "foldl classify_step acc ls =
     (fst acc @ filter is_japanese (filter (\<lambda>c. c \<noteq> []) (map clean_text ls)),
      snd acc @ filter (\<lambda>c. \<not> is_japanese c) (filter (\<lambda>c. c \<noteq> []) (map clean_text ls)))"
  by (induction ls arbitrary: acc) (auto simp: classify_step_def Let_def)

lemma classify_lines_eq:
  "classify_lines ls =
     (filter is_japanese (filter (\<lambda>c. c \<noteq> []) (map clean_text ls)),
      filter (\<lambda>c. \<not> is_japanese c) (filter (\<lambda>c. c \<noteq> []) (map clean_text ls)))"
  by (simp add: classify_lines_def classify_lines_acc)

lemma pair_loop_map:
  "\<forall>i \<in> set idx. i < length ja \<and> i < length en \<Longrightarrow>
   pair_loop ja en idx acc = Inr (acc @ filter long_enough (map (\<lambda>i. (ja ! i, en ! i)) idx))"
  by (induction idx arbitrary: acc) (auto simp: index_def)

lemma pair_loop_sjis_map:
  "\<forall>i \<in> set idx. i < length ja \<and> i < length en \<Longrightarrow>
   pair_loop_sjis ja en idx acc = Inr (acc @ filter long_enough (map (\<lambda>i. (ja ! i, en ! i)) idx))"
  by (induction idx arbitrary: acc) (auto simp: index_def long_enough_def)

lemma zip_take_map:
  "m \<le> length xs \<Longrightarrow> m \<le> length ys \<Longrightarrow>
   map (\<lambda>i. (xs ! i, ys ! i)) [0 ..< m] = zip (take m xs) (take m ys)"
  by (rule nth_equalityI) auto

lemma pair_loop_upt:
  "m = min (length ja) (length en) \<Longrightarrow>
   pair_loop ja en [0 ..< m] acc = Inr (acc @ filter long_enough (zip (take m ja) (take m en)))"
  by (simp add: pair_loop_map zip_take_map)

lemma pair_loop_sjis_upt:
  "m = min (length ja) (length en) \<Longrightarrow>
   pair_loop_sjis ja en [0 ..< m] acc = Inr (acc @ filter long_enough (zip (take m ja) (take m en)))"
  by (simp add: pair_loop_sjis_map zip_take_map)

lemma zip_take_min:
  "zip (take (min (length xs) (length ys)) xs) (take (min (length xs) (length ys)) ys) = zip xs ys"
  by (induction xs ys rule: list_induct2') auto

lemma reconcile_sjis_eq:
  "reconcile_sjis ja en pairs = Inr (pairs @ filter long_enough (zip ja en))"
  by (simp add: reconcile_sjis_def pair_loop_sjis_upt zip_take_min)

subsection \<open>The merged target line\<close>

lemma fix_semicolons_set: "set (fix_semicolons s) \<subseteq> set s \<union> {SP}"
proof (induction s rule: fix_semicolons.induct)
  case 1
  show ?case by simp
next
  case (2 c cs)
  have "set (dropWhile is_space cs) \<subseteq> set cs"
    by (auto dest: set_dropWhileD)
  with 2 show ?case by auto
qed

lemma join_sp_set: "set (join_sp xs) \<subseteq> (\<Union>x \<in> set xs. set x) \<union> {SP}"
  by (induction xs rule: join_sp.induct) auto

lemma fan_in_not_japanese:
  assumes "\<forall>x \<in> set en. \<not> is_japanese x"
  shows "\<not> is_japanese (fix_semicolons (join_sp en))"
proof
  assume "is_japanese (fix_semicolons (join_sp en))"
  then obtain c where c: "c \<in> set (fix_semicolons (join_sp en))" "is_jp_char c"
    by (auto simp: is_japanese_def list_ex_iff)
  have "\<not> is_jp_char SP" by (simp add: is_jp_char_def SP_def)
  with c fix_semicolons_set join_sp_set have "\<exists>x \<in> set en. c \<in> set x"
    by fastforce
  with c(2) assms show False by (auto simp: is_japanese_def list_ex_iff)
qed

lemma reconcile_equal:
  "length ja = length en \<Longrightarrow> reconcile ja en = Inr (filter long_enough (zip ja en))"
  by (simp add: reconcile_def)

lemma reconcile_fan_in:
  "length en > 1 \<Longrightarrow>
   reconcile [j] en =
     Inr (if long_enough (j, fix_semicolons (join_sp en))
          then [(j, fix_semicolons (join_sp en))] else [])"
  by (simp add: reconcile_def index_def Let_def)

lemma reconcile_fallback:
  assumes "length ja \<noteq> length en" "\<not> (length ja = 1 \<and> length en > 1)" "ja \<noteq> []" "en \<noteq> []"
  shows "reconcile ja en = Inr (filter long_enough (zip ja en))"
proof -
  have "reconcile ja en = pair_loop ja en [0 ..< min (length ja) (length en)] []"
    using assms by (auto simp: reconcile_def)
  then show ?thesis by (simp add: pair_loop_upt zip_take_min)
qed

lemma reconcile_empty_side:
  "ja = [] \<or> en = [] \<Longrightarrow> reconcile ja en = Inr []"
  by (auto simp: reconcile_def)

lemma zip_filter_length:
  "length (filter P (zip xs ys)) \<le> min (length xs) (length ys)"
proof -
  have "length (filter P (zip xs ys)) \<le> length (zip xs ys)" by (rule length_filter_le)
  then show ?thesis by simp
qed

lemma zip_filter_sides:
  "\<forall>p \<in> set (filter P (zip xs ys)). fst p \<in> set xs \<and> snd p \<in> set ys"
  by (auto dest: set_zip_leftD set_zip_rightD)

lemma reconcile_total:
  "\<exists>ps. reconcile ja en = Inr ps \<and> length ps \<le> min (length ja) (length en)
     \<and> (\<forall>p \<in> set ps. fst p \<in> set ja \<and>
           (snd p \<in> set en \<or> snd p = fix_semicolons (join_sp en)))"
proof -
  let ?zs = "filter long_enough (zip ja en)"
  have zs: "length ?zs \<le> min (length ja) (length en)
     \<and> (\<forall>p \<in> set ?zs. fst p \<in> set ja \<and>
           (snd p \<in> set en \<or> snd p = fix_semicolons (join_sp en)))"
    using zip_filter_length [of long_enough ja en] zip_filter_sides [of long_enough ja en]
    by blast
  consider (eq) "length ja = length en"
    | (fan) "length ja \<noteq> length en" "length ja = 1" "length en > 1"
    | (cut) "length ja \<noteq> length en" "\<not> (length ja = 1 \<and> length en > 1)" "ja \<noteq> []" "en \<noteq> []"
    | (none) "ja = [] \<or> en = []"
    by blast
  then show ?thesis
  proof cases
    case eq
    then have "reconcile ja en = Inr ?zs" by (rule reconcile_equal)
    with zs show ?thesis by blast
  next
    case fan
    then obtain j where "ja = [j]" by (cases ja) auto
    with fan show ?thesis by (simp add: reconcile_fan_in)
  next
    case cut
    then have "reconcile ja en = Inr ?zs" by (rule reconcile_fallback)
    with zs show ?thesis by blast
  next
    case none
    then have "reconcile ja en = Inr []" by (rule reconcile_empty_side)
    then show ?thesis by simp
  qed
qed

subsection \<open>Blocks and files\<close>

lemma classify_lines_Nil: "classify_lines [] = ([], [])"
  by (simp add: classify_lines_def)

lemma classify_lines_scripts:
  assumes "classify_lines ls = (ja, en)"
  shows "(\<forall>x \<in> set ja. is_japanese x) \<and> (\<forall>x \<in> set en. \<not> is_japanese x)"
  using assms by (auto simp: classify_lines_eq)

lemma extract_pairs_from_block_reconcile:
  assumes "classify_lines (filter (\<lambda>l. \<not> should_skip_line l) lines0) = (ja, en)"
  shows "extract_pairs_from_block lines0 = reconcile ja en"
proof (cases "filter (\<lambda>l. \<not> should_skip_line l) lines0 = []")
  case True
  with assms have "ja = []" "en = []" by (simp_all add: classify_lines_Nil)
  with True show ?thesis by (simp add: extract_pairs_from_block_def reconcile_def)
next
  case False
  with assms show ?thesis by (simp add: extract_pairs_from_block_def Let_def)
qed

lemma block_body_sjis_zip:
  assumes "classify_lines (filter (\<lambda>l. \<not> should_skip_line_sjis l) (block_lines block)) = (ja, en)"
  shows "block_body_sjis block pairs = Inr (pairs @ filter long_enough (zip ja en))"
proof (cases "filter (\<lambda>l. \<not> should_skip_line_sjis l) (block_lines block) = []")
  case True
  with assms have "ja = []" "en = []" by (simp_all add: classify_lines_Nil)
  with True show ?thesis by (simp add: block_body_sjis_def)
next
  case False
  with assms show ?thesis by (simp add: block_body_sjis_def Let_def reconcile_sjis_eq)
qed

lemma zip_as_map:
  "zip xs ys = map (\<lambda>i. (xs ! i, ys ! i)) [0 ..< min (length xs) (length ys)]"
  by (rule nth_equalityI) auto

lemma reconcile_script_ok:
  assumes "\<forall>x \<in> set ja. is_japanese x" "\<forall>x \<in> set en. \<not> is_japanese x"
  shows "\<exists>ps. reconcile ja en = Inr ps \<and> (\<forall>p \<in> set ps. is_japanese (fst p) \<and> \<not> is_japanese (snd p))"
proof -
  from reconcile_total [of ja en] obtain ps where
    ps: "reconcile ja en = Inr ps"
      "\<forall>p \<in> set ps. fst p \<in> set ja \<and> (snd p \<in> set en \<or> snd p = fix_semicolons (join_sp en))"
    by blast
  have "\<not> is_japanese (fix_semicolons (join_sp en))"
    using assms(2) by (rule fan_in_not_japanese)
  with ps(2) assms have "\<forall>p \<in> set ps. is_japanese (fst p) \<and> \<not> is_japanese (snd p)"
    by metis
  with ps(1) show ?thesis by blast
qed

lemma block_script_ok:
  "\<exists>ps. extract_pairs_from_block lines0 = Inr ps
     \<and> (\<forall>p \<in> set ps. is_japanese (fst p) \<and> \<not> is_japanese (snd p))"
proof -
  obtain ja en where c: "classify_lines (filter (\<lambda>l. \<not> should_skip_line l) lines0) = (ja, en)"
    by (cases "classify_lines (filter (\<lambda>l. \<not> should_skip_line l) lines0)")
  from classify_lines_scripts [OF c] extract_pairs_from_block_reconcile [OF c]
  show ?thesis using reconcile_script_ok [of ja en] by simp
qed

lemma block_body_sjis_script_ok:
  assumes "\<forall>p \<in> set pairs. is_japanese (fst p) \<and> \<not> is_japanese (snd p)"
  shows "\<exists>ps. block_body_sjis block pairs = Inr ps
     \<and> (\<forall>p \<in> set ps. is_japanese (fst p) \<and> \<not> is_japanese (snd p))"
proof -
  obtain ja en where c:
    "classify_lines (filter (\<lambda>l. \<not> should_skip_line_sjis l) (block_lines block)) = (ja, en)"
    by (cases "classify_lines (filter (\<lambda>l. \<not> should_skip_line_sjis l) (block_lines block))")
  have "\<forall>p \<in> set (filter long_enough (zip ja en)). is_japanese (fst p) \<and> \<not> is_japanese (snd p)"
    using classify_lines_scripts [OF c] zip_filter_sides [of long_enough ja en] by blast
  with assms show ?thesis by (auto simp: block_body_sjis_zip [OF c])
qed

lemma extend_pairs_script_ok:
  assumes "\<forall>p \<in> set pairs. is_japanese (fst p) \<and> \<not> is_japanese (snd p)"
  shows "\<exists>ps. extend_pairs blocks pairs = Inr ps
     \<and> (\<forall>p \<in> set ps. is_japanese (fst p) \<and> \<not> is_japanese (snd p))"
  using assms
proof (induction blocks arbitrary: pairs)
  case Nil
  then show ?case by simp
next
  case (Cons b blocks)
  from block_script_ok [of "block_lines b"] obtain bp where
    bp: "extract_pairs_from_block (block_lines b) = Inr bp"
        "\<forall>p \<in> set bp. is_japanese (fst p) \<and> \<not> is_japanese (snd p)"
    by blast
  with Cons.prems have "\<forall>p \<in> set (pairs @ bp). is_japanese (fst p) \<and> \<not> is_japanese (snd p)"
    by auto
  from Cons.IH [OF this] bp(1) show ?case by simp
qed

lemma extend_pairs_sjis_script_ok:
  assumes "\<forall>p \<in> set pairs. is_japanese (fst p) \<and> \<not> is_japanese (snd p)"
  shows "\<exists>ps. extend_pairs_sjis blocks pairs = Inr ps
     \<and> (\<forall>p \<in> set ps. is_japanese (fst p) \<and> \<not> is_japanese (snd p))"
  using assms
proof (induction blocks arbitrary: pairs)
  case Nil
  then show ?case by simp
next
  case (Cons b blocks)
  from block_body_sjis_script_ok [OF Cons.prems, of b] obtain ps' where
    ps': "block_body_sjis b pairs = Inr ps'"
         "\<forall>p \<in> set ps'. is_japanese (fst p) \<and> \<not> is_japanese (snd p)"
    by blast
  from Cons.IH [OF ps'(2)] ps'(1) show ?case by simp
qed

subsection \<open>Runs of the model\<close>

lemma fan_in_block_eval:
  "extract_pairs_from_block [sample_mite, ascii ''Look;'', ascii ''over there.'']
     = Inr [(sample_mite, ascii ''Look; over there.'')]"
  by (simp add: extract_pairs_from_block_def reconcile_def index_def Let_def
      sample_defs block_defs line_defs char_defs)

section \<open>Pair reconciliation\<close>

text \<open>
  C1. When the kept lines of a block classify into as many Japanese lines as other lines,
  and at least one of each, the block yields the positional pairs (first with first, second
  with second, ...) whose two cleaned sides both have three characters or more, in that
  order, and nothing else. This holds for \<open>extract_pairs_from_block\<close> of the UTF-8 script
  and for the loop body of the Shift-JIS script, which appends to the pairs of the file.
\<close>

theorem equal_counts_positional_pairs:
  assumes "classify_lines (filter (\<lambda>l. \<not> should_skip_line l) lines0) = (ja, en)"
    and "length ja = length en" and "ja \<noteq> []"
    and "classify_lines (filter (\<lambda>l. \<not> should_skip_line_sjis l) (block_lines block)) = (ja', en')"
    and "length ja' = length en'" and "ja' \<noteq> []"
  shows "extract_pairs_from_block lines0 = Inr (filter long_enough (zip ja en))
       \<and> block_body_sjis block pairs = Inr (pairs @ filter long_enough (zip ja' en'))"
  using assms
  by (simp add: extract_pairs_from_block_reconcile reconcile_equal block_body_sjis_zip)

theorem equal_counts_positional_pairs_witness:
  "extract_pairs_from_block [sample_ja, sample_en, sample_aiueo, ascii ''&#1234ab'']
     = Inr [(sample_ja, sample_en)]
   \<and> block_body_sjis (sample_ja @ [NL] @ sample_en) [] = Inr [(sample_ja, sample_en)]"
proof -
  have h1: "classify_lines (filter (\<lambda>l. \<not> should_skip_line l)
              [sample_ja, sample_en, sample_aiueo, ascii ''&#1234ab''])
            = ([sample_ja, sample_aiueo], [sample_en, ascii ''ab''])"
    by (simp add: sample_defs block_defs line_defs char_defs)
  have h2: "classify_lines (filter (\<lambda>l. \<not> should_skip_line_sjis l)
              (block_lines (sample_ja @ [NL] @ sample_en)))
            = ([sample_ja], [sample_en])"
    by (simp add: sample_defs block_defs line_defs char_defs)
  have "length [sample_ja, sample_aiueo] = length [sample_en, ascii ''ab'']" 
    "[sample_ja, sample_aiueo] \<noteq> []" "length [sample_ja] = length [sample_en]" "[sample_ja] \<noteq> []"
    by simp_all
  from equal_counts_positional_pairs [OF h1 this(1,2) h2 this(3,4), of "[]"]
  show ?thesis by (simp add: sample_defs long_enough_def ascii_def)
qed

text \<open>
  C3. When the two counts differ, neither is zero, and the block is not one Japanese line
  against several other lines, the block yields the pairs of the indices below the smaller
  count (the i-th Japanese line with the i-th other line) that are long enough, in order:
  at most as many as the smaller count, and no line at a higher index is used. Both scripts
  do so.
\<close>

theorem unequal_counts_truncate:
  assumes "classify_lines (filter (\<lambda>l. \<not> should_skip_line l) lines0) = (ja, en)"
    and "length ja \<noteq> length en" and "ja \<noteq> []" and "en \<noteq> []"
    and "\<not> (length ja = 1 \<and> length en > 1)"
    and "classify_lines (filter (\<lambda>l. \<not> should_skip_line_sjis l) (block_lines block)) = (ja', en')"
    and "length ja' \<noteq> length en'" and "ja' \<noteq> []" and "en' \<noteq> []"
    and "\<not> (length ja' = 1 \<and> length en' > 1)"
  shows "extract_pairs_from_block lines0 =
           Inr (filter long_enough
                  (map (\<lambda>i. (ja ! i, en ! i)) [0 ..< min (length ja) (length en)]))
       \<and> length (filter long_enough
                  (map (\<lambda>i. (ja ! i, en ! i)) [0 ..< min (length ja) (length en)]))
           \<le> min (length ja) (length en)
       \<and> block_body_sjis block pairs =
           Inr (pairs @ filter long_enough
                  (map (\<lambda>i. (ja' ! i, en' ! i)) [0 ..< min (length ja') (length en')]))
       \<and> length (filter long_enough
                  (map (\<lambda>i. (ja' ! i, en' ! i)) [0 ..< min (length ja') (length en')]))
           \<le> min (length ja') (length en')"
proof -
  have 1: "extract_pairs_from_block lines0 = Inr (filter long_enough (zip ja en))"
    using assms(1-5) by (simp add: extract_pairs_from_block_reconcile reconcile_fallback)
  have 2: "block_body_sjis block pairs = Inr (pairs @ filter long_enough (zip ja' en'))"
    using assms(6) by (rule block_body_sjis_zip)
  show ?thesis
    using 1 2 zip_filter_length [of long_enough ja en] zip_filter_length [of long_enough ja' en']
    by (simp only: zip_as_map [symmetric] simp_thms)
qed

theorem unequal_counts_truncate_witness:
  "extract_pairs_from_block [sample_aiueo, sample_kakiku, ascii ''abc'']
     = Inr [(sample_aiueo, ascii ''abc'')]
   \<and> block_body_sjis (sample_aiueo @ [NL] @ sample_kakiku @ [NL] @ ascii ''abc'') []
     = Inr [(sample_aiueo, ascii ''abc'')]"
proof -
  have h1: "classify_lines (filter (\<lambda>l. \<not> should_skip_line l)
              [sample_aiueo, sample_kakiku, ascii ''abc''])
            = ([sample_aiueo, sample_kakiku], [ascii ''abc''])"
    by (simp add: sample_defs block_defs line_defs char_defs)
  have h2: "classify_lines (filter (\<lambda>l. \<not> should_skip_line_sjis l)
              (block_lines (sample_aiueo @ [NL] @ sample_kakiku @ [NL] @ ascii ''abc'')))
            = ([sample_aiueo, sample_kakiku], [ascii ''abc''])"
    by (simp add: sample_defs block_defs line_defs char_defs)
  have h: "length [sample_aiueo, sample_kakiku] \<noteq> length [ascii ''abc'']"
    "[sample_aiueo, sample_kakiku] \<noteq> []" "[ascii ''abc''] \<noteq> []"
    "\<not> (length [sample_aiueo, sample_kakiku] = 1 \<and> length [ascii ''abc''] > 1)"
    by simp_all
  from unequal_counts_truncate [OF h1 h h2 h, of "[]"]
  show ?thesis by (simp add: sample_defs long_enough_def ascii_def)
qed

text \<open>
  C8. Pair reconciliation never raises. For every block, \<open>extract_pairs_from_block\<close>
  returns a list of pairs, no longer than the smaller of the two counts, and empty when no
  line is kept or when one of the two sides is empty; the loop body of the Shift-JIS script
  likewise returns the pairs it was given with such a list appended. Hence both
  \<open>extract_pairs_from_file\<close> return pairs for every content.
\<close>

theorem reconciliation_never_raises:
  "(let kept = filter (\<lambda>l. \<not> should_skip_line l) lines0;
        ja = fst (classify_lines kept); en = snd (classify_lines kept)
    in \<exists>ps. extract_pairs_from_block lines0 = Inr ps
          \<and> length ps \<le> min (length ja) (length en)
          \<and> (kept = [] \<or> ja = [] \<or> en = [] \<longrightarrow> ps = []))
   \<and> (let kept = filter (\<lambda>l. \<not> should_skip_line_sjis l) (block_lines block);
        ja = fst (classify_lines kept); en = snd (classify_lines kept)
    in \<exists>ps. block_body_sjis block pairs = Inr (pairs @ ps)
          \<and> length ps \<le> min (length ja) (length en)
          \<and> (kept = [] \<or> ja = [] \<or> en = [] \<longrightarrow> ps = []))
   \<and> (\<exists>ps. extract_pairs_from_file content = Inr ps)
   \<and> (\<exists>ps. extract_pairs_from_file_sjis content = Inr ps)"
proof -
  let ?kept = "filter (\<lambda>l. \<not> should_skip_line l) lines0"
  let ?ja = "fst (classify_lines ?kept)" and ?en = "snd (classify_lines ?kept)"
  have c: "classify_lines ?kept = (?ja, ?en)" by simp
  from reconcile_total [of ?ja ?en] obtain ps where
    ps: "reconcile ?ja ?en = Inr ps" "length ps \<le> min (length ?ja) (length ?en)"
    by blast
  have e: "?kept = [] \<longrightarrow> ?ja = []" by (simp add: classify_lines_Nil)
  have 1: "\<exists>ps. extract_pairs_from_block lines0 = Inr ps
          \<and> length ps \<le> min (length ?ja) (length ?en)
          \<and> (?kept = [] \<or> ?ja = [] \<or> ?en = [] \<longrightarrow> ps = [])"
    using ps e extract_pairs_from_block_reconcile [OF c] by auto
  let ?kept' = "filter (\<lambda>l. \<not> should_skip_line_sjis l) (block_lines block)"
  let ?ja' = "fst (classify_lines ?kept')" and ?en' = "snd (classify_lines ?kept')"
  have c': "classify_lines ?kept' = (?ja', ?en')" by simp
  have e': "?kept' = [] \<longrightarrow> ?ja' = []" by (simp add: classify_lines_Nil)
  have 2: "\<exists>ps. block_body_sjis block pairs = Inr (pairs @ ps)
          \<and> length ps \<le> min (length ?ja') (length ?en')
          \<and> (?kept' = [] \<or> ?ja' = [] \<or> ?en' = [] \<longrightarrow> ps = [])"
    using e' block_body_sjis_zip [OF c', of pairs] zip_filter_length [of long_enough ?ja' ?en']
    by auto
  have 3: "\<exists>ps. extract_pairs_from_file content = Inr ps"
    using extend_pairs_script_ok [of "[]"] by (auto simp: extract_pairs_from_file_def Let_def)
  have 4: "\<exists>ps. extract_pairs_from_file_sjis content = Inr ps"
    using extend_pairs_sjis_script_ok [of "[]"] by (auto simp: extract_pairs_from_file_sjis_def)
  from 1 2 3 4 show ?thesis by (simp only: Let_def simp_thms)
qed

theorem reconciliation_never_raises_witness:
  "extract_pairs_from_block sample_rule_block = Inr []
   \<and> block_body_sjis sample_digits_block [] = Inr []"
proof -
  have k: "filter (\<lambda>l. \<not> should_skip_line l) sample_rule_block = []"
    by (simp add: sample_rule_block_def line_defs char_defs)
  have k': "classify_lines (filter (\<lambda>l. \<not> should_skip_line_sjis l)
              (block_lines sample_digits_block)) = ([], [ascii ''abc''])"
    by (simp add: sample_digits_block_def block_defs line_defs char_defs)
  from reconciliation_never_raises [of sample_rule_block sample_digits_block "[]" "[]"]
  show ?thesis by (simp add: k k' Let_def)
qed

text \<open>
  C10. Every pair that a block or a file yields has a first side with at least one character
  in the Hiragana, Katakana or CJK Unified Ideographs ranges and a second side with none; so
  has the merged target of the fan-in case. Both scripts.
\<close>

theorem emitted_pairs_respect_scripts:
  "(\<exists>ps. extract_pairs_from_block lines0 = Inr ps
        \<and> (\<forall>p \<in> set ps. is_japanese (fst p) \<and> \<not> is_japanese (snd p)))
   \<and> (\<exists>ps. block_body_sjis block [] = Inr ps
        \<and> (\<forall>p \<in> set ps. is_japanese (fst p) \<and> \<not> is_japanese (snd p)))
   \<and> (\<exists>ps. extract_pairs_from_file content = Inr ps
        \<and> (\<forall>p \<in> set ps. is_japanese (fst p) \<and> \<not> is_japanese (snd p)))
   \<and> (\<exists>ps. extract_pairs_from_file_sjis content = Inr ps
        \<and> (\<forall>p \<in> set ps. is_japanese (fst p) \<and> \<not> is_japanese (snd p)))"
proof -
  have 2: "\<exists>ps. block_body_sjis block [] = Inr ps
        \<and> (\<forall>p \<in> set ps. is_japanese (fst p) \<and> \<not> is_japanese (snd p))"
    by (rule block_body_sjis_script_ok) simp
  have 3: "\<exists>ps. extract_pairs_from_file content = Inr ps
        \<and> (\<forall>p \<in> set ps. is_japanese (fst p) \<and> \<not> is_japanese (snd p))"
    unfolding extract_pairs_from_file_def Let_def by (rule extend_pairs_script_ok) simp
  have 4: "\<exists>ps. extract_pairs_from_file_sjis content = Inr ps
        \<and> (\<forall>p \<in> set ps. is_japanese (fst p) \<and> \<not> is_japanese (snd p))"
    unfolding extract_pairs_from_file_sjis_def by (rule extend_pairs_sjis_script_ok) simp
  from block_script_ok [of lines0] 2 3 4 show ?thesis by blast
qed

theorem emitted_pairs_respect_scripts_witness:
  "is_japanese sample_mite \<and> \<not> is_japanese (ascii ''Look; over there.'')"
  using emitted_pairs_respect_scripts
    [of "[sample_mite, ascii ''Look;'', ascii ''over there.'']" "[]" "[]"]
  by (simp add: fan_in_block_eval)

section \<open>The fan-in case\<close>

lemma fix_semicolons_head:
  "s = [] \<or> \<not> is_space (hd s) \<Longrightarrow>
   fix_semicolons s = [] \<or> \<not> is_space (hd (fix_semicolons s))"
  by (cases s) (auto simp: SEMI_def is_space_def)

lemma dropWhile_head: "dropWhile P s = [] \<or> \<not> P (hd (dropWhile P s))"
  using hd_dropWhile [of P s] by blast

lemma semis_spaced_fix: "semis_spaced (fix_semicolons s)"
proof (induction s rule: fix_semicolons.induct)
  case 1
  show ?case by simp
next
  case (2 c cs)
  show ?case
  proof (cases "c = SEMI")
    case True
    let ?r = "fix_semicolons (dropWhile is_space cs)"
    have "?r = [] \<or> \<not> is_space (hd ?r)"
      by (rule fix_semicolons_head) (rule dropWhile_head)
    moreover have "semis_spaced ?r" using 2(1) True by simp
    ultimately show ?thesis using True by (cases ?r) auto
  next
    case False
    with 2(2) show ?thesis by simp
  qed
qed

lemma fix_semicolons_keeps_text:
  "filter (\<lambda>c. \<not> is_space c) (fix_semicolons s) = filter (\<lambda>c. \<not> is_space c) s"
proof (induction s rule: fix_semicolons.induct)
  case 1
  show ?case by simp
next
  case (2 c cs)
  have "filter (\<lambda>c. \<not> is_space c) (dropWhile is_space cs) = filter (\<lambda>c. \<not> is_space c) cs"
    by (induction cs) auto
  with 2 show ?case by (auto simp: SP_def is_space_def SEMI_def)
qed

text \<open>
  C2, as amended. With exactly one Japanese line and more than one other line, a block
  yields at most one pair. In the UTF-8 script its target is the other lines joined by single
  spaces, with every semicolon and the whitespace after it rewritten to a semicolon and one
  space: in the result every semicolon is followed by exactly one space, and the text apart
  from whitespace is unchanged. The Shift-JIS script has no such case: there the target is the
  first of the other lines, as it stands.
\<close>

theorem fan_in_merges_targets:
  assumes "classify_lines (filter (\<lambda>l. \<not> should_skip_line l) lines0) = ([ja], en)"
    and "length en > 1"
    and "classify_lines (filter (\<lambda>l. \<not> should_skip_line_sjis l) (block_lines block)) = ([ja'], en')"
    and "length en' > 1"
  shows "extract_pairs_from_block lines0 =
           Inr (if long_enough (ja, fix_semicolons (join_sp en))
                then [(ja, fix_semicolons (join_sp en))] else [])
       \<and> semis_spaced (fix_semicolons (join_sp en))
       \<and> filter (\<lambda>c. \<not> is_space c) (fix_semicolons (join_sp en))
           = filter (\<lambda>c. \<not> is_space c) (join_sp en)
       \<and> block_body_sjis block pairs =
           Inr (pairs @ (if long_enough (ja', hd en') then [(ja', hd en')] else []))"
proof -
  have 1: "extract_pairs_from_block lines0 =
           Inr (if long_enough (ja, fix_semicolons (join_sp en))
                then [(ja, fix_semicolons (join_sp en))] else [])"
    using assms(1,2) by (simp add: extract_pairs_from_block_reconcile reconcile_fan_in)
  obtain e es where en': "en' = e # es" using assms(4) by (cases en') auto
  have 2: "block_body_sjis block pairs =
           Inr (pairs @ (if long_enough (ja', hd en') then [(ja', hd en')] else []))"
    using block_body_sjis_zip [OF assms(3), of pairs] en' by simp
  from 1 2 semis_spaced_fix fix_semicolons_keeps_text show ?thesis by blast
qed

lemma fan_in_block_sjis_eval:
  "classify_lines (filter (\<lambda>l. \<not> should_skip_line_sjis l) (block_lines sample_fan_block))
     = ([sample_mite], [ascii ''Look;'', ascii ''over there.''])"
  by (simp add: sample_fan_block_def sample_defs block_defs line_defs char_defs)

lemma fan_in_block_utf8_eval:
  "classify_lines (filter (\<lambda>l. \<not> should_skip_line l) (block_lines sample_fan_block))
     = ([sample_mite], [ascii ''Look;'', ascii ''over there.''])"
  by (simp add: sample_fan_block_def sample_defs block_defs line_defs char_defs)

theorem fan_in_merges_targets_witness:
  "extract_pairs_from_block (block_lines sample_fan_block)
     = Inr [(sample_mite, ascii ''Look; over there.'')]
   \<and> block_body_sjis sample_fan_block [] = Inr [(sample_mite, ascii ''Look;'')]"
proof -
  have "length [ascii ''Look;'', ascii ''over there.''] > 1" by simp
  from fan_in_merges_targets [OF fan_in_block_utf8_eval this fan_in_block_sjis_eval this, of "[]"]
  show ?thesis by (simp add: sample_defs long_enough_def char_defs)
qed

text \<open>
  The claim as stated fails for the Shift-JIS script: for the block of the three lines
  U+898B U+3066 U+3002, \<open>Look;\<close> and \<open>over there.\<close> the pair keeps \<open>Look;\<close> alone.
\<close>

theorem fan_in_sjis_counterexample:
  "classify_lines (filter (\<lambda>l. \<not> should_skip_line_sjis l) (block_lines sample_fan_block))
     = ([sample_mite], [ascii ''Look;'', ascii ''over there.''])
   \<and> block_body_sjis sample_fan_block [] = Inr [(sample_mite, ascii ''Look;'')]
   \<and> ascii ''Look;'' \<noteq> fix_semicolons (join_sp [ascii ''Look;'', ascii ''over there.''])"
proof -
  have "block_body_sjis sample_fan_block [] = Inr [(sample_mite, ascii ''Look;'')]"
    by (simp add: block_body_sjis_zip [OF fan_in_block_sjis_eval] long_enough_def sample_defs char_defs)
  moreover have "ascii ''Look;'' \<noteq> fix_semicolons (join_sp [ascii ''Look;'', ascii ''over there.''])"
    by (simp add: char_defs)
  ultimately show ?thesis using fan_in_block_sjis_eval by simp
qed

section \<open>The length check of the noise filter\<close>

lemma should_skip_line_checks:
  "should_skip_line line \<longleftrightarrow> caught_by_checks_1_to_7 line \<or> length (strip line) \<le> 2"
  by (simp add: should_skip_line_def caught_by_checks_1_to_7_def Let_def)

lemma classify_lines_single:
  "classify_lines [line] =
     (if clean_text line = [] then ([], [])
      else if is_japanese (clean_text line) then ([clean_text line], [])
      else ([], [clean_text line]))"
  by (simp add: classify_lines_def classify_step_def Let_def)

lemma sample_entity_line_eval:
  "\<not> caught_by_checks_1_to_7 sample_entity_line"
  "clean_text sample_entity_line = ascii ''ab''"
  "strip sample_entity_line = sample_entity_line"
  by (simp_all add: caught_by_checks_1_to_7_def sample_entity_line_def line_defs char_defs)

text \<open>
  C7, as amended. A line that passes checks 1 to 7 is noise exactly when the line itself,
  stripped of surrounding whitespace and with its character references still in place, has
  two characters or fewer. The cleaned text decides only this: a kept line whose cleaned text
  is empty is passed over, and any other kept line is classified by its cleaned text, however
  short.
\<close>

theorem short_line_check_on_stripped_text:
  assumes "\<not> caught_by_checks_1_to_7 line"
  shows "(should_skip_line line \<longleftrightarrow> length (strip line) \<le> 2)
       \<and> (length (strip line) > 2 \<longrightarrow>
            classify_lines (filter (\<lambda>l. \<not> should_skip_line l) [line]) =
              (if clean_text line = [] then ([], [])
               else if is_japanese (clean_text line) then ([clean_text line], [])
               else ([], [clean_text line])))"
  using assms by (simp add: should_skip_line_checks classify_lines_single)

theorem short_line_check_on_stripped_text_witness:
  "\<not> should_skip_line sample_entity_line
   \<and> classify_lines (filter (\<lambda>l. \<not> should_skip_line l) [sample_entity_line])
       = ([], [ascii ''ab''])"
  using short_line_check_on_stripped_text [OF sample_entity_line_eval(1)]
  by (simp add: sample_entity_line_eval(2,3))
    (simp add: sample_entity_line_def line_defs char_defs)

text \<open>
  The claim as stated fails at the line \<open>&#1234ab\<close>: it passes checks 1 to 7 and its cleaned
  text \<open>ab\<close> has two characters, yet it is kept and classified, and in a block with one
  Japanese line and another English line it ends up inside the emitted pair.
\<close>

theorem short_cleaned_line_counterexample:
  "\<not> caught_by_checks_1_to_7 sample_entity_line
   \<and> length (clean_text sample_entity_line) \<le> 2
   \<and> \<not> should_skip_line sample_entity_line
   \<and> extract_pairs_from_block [sample_ja, sample_entity_line, ascii ''English'']
       = Inr [(sample_ja, ascii ''ab English'')]"
proof -
  have "\<not> should_skip_line sample_entity_line"
    by (simp add: should_skip_line_checks sample_entity_line_eval)
      (simp add: sample_entity_line_def ascii_def)
  moreover have "extract_pairs_from_block [sample_ja, sample_entity_line, ascii ''English'']
       = Inr [(sample_ja, ascii ''ab English'')]"
    by (simp add: extract_pairs_from_block_def reconcile_def index_def Let_def
        sample_entity_line_def sample_defs block_defs line_defs char_defs)
  ultimately show ?thesis by (simp add: sample_entity_line_eval ascii_def)
qed

section \<open>The TSV file and its conversion to JSON\<close>

lemma split_max_no_sep:
  "sep \<notin> set s \<Longrightarrow> split_max sep n cur s = [cur @ s]"
  by (induction sep n cur s rule: split_max.induct) auto

lemma split_max_first:
  "sep \<notin> set a \<Longrightarrow> split_max sep (Suc n) cur (a @ sep # r) = (cur @ a) # split_max sep n [] r"
  by (induction a arbitrary: cur) auto

lemma sanitize_clean: "TAB \<notin> set (sanitize s) \<and> NL \<notin> set (sanitize s)"
  by (auto simp: sanitize_def replace_char_def TAB_def NL_def SP_def)

lemma sanitize_id: "TAB \<notin> set s \<Longrightarrow> NL \<notin> set s \<Longrightarrow> sanitize s = s"
  by (induction s) (auto simp: sanitize_def replace_char_def)

lemma rstrip_nl_line:
  assumes "NL \<notin> set b"
  shows "rstrip_nl (a @ TAB # b @ [NL]) = a @ TAB # b"
proof -
  have "dropWhile (\<lambda>c. c = NL) (rev b @ TAB # rev a) = rev b @ TAB # rev a"
    using assms by (cases "rev b") (auto simp: TAB_def NL_def)
  then show ?thesis by (simp add: rstrip_nl_def)
qed

lemma tsv_parts_line: "tsv_parts (tsv_line (s, t)) = [sanitize s, sanitize t]"
proof -
  have "tsv_parts (tsv_line (s, t)) = split_max TAB 2 [] (sanitize s @ [TAB] @ sanitize t)"
    using sanitize_clean [of t] by (simp add: tsv_parts_def tsv_line_def rstrip_nl_line)
  also have "\<dots> = [sanitize s, sanitize t]"
    using sanitize_clean [of s] sanitize_clean [of t]
    by (simp add: numeral_2_eq_2 split_max_first split_max_no_sep)
  finally show ?thesis .
qed

text \<open>
  C9, as amended. Writing a pair as a line of the TSV file and splitting that line at the
  tab gives back the two sides as sanitised, that is with every tab and line feed replaced by
  a space. The sides as they were come back whenever neither held a tab or a line feed.
\<close>

theorem tsv_round_trip:
  "tsv_parts (tsv_line (s, t)) = [sanitize s, sanitize t]
   \<and> (TAB \<notin> set s \<and> NL \<notin> set s \<and> TAB \<notin> set t \<and> NL \<notin> set t
        \<longrightarrow> tsv_parts (tsv_line (s, t)) = [s, t])"
  by (simp add: tsv_parts_line sanitize_id)

theorem tsv_round_trip_witness:
  "tsv_parts (tsv_line (sample_ja, sample_en)) = [sample_ja, sample_en]"
  using tsv_round_trip [of sample_ja sample_en]
  by (simp add: sample_defs char_defs sanitize_def replace_char_def)

text \<open>
  The claim as stated fails for a side with a tab inside, such as the line U+3042 U+3044,
  tab, U+3046 U+3048 that the extraction can emit: after sanitisation neither side holds a
  tab, and the line read back has a space where the tab was.
\<close>

theorem tsv_round_trip_counterexample:
  "TAB \<notin> set (sanitize sample_tabbed) \<and> TAB \<notin> set (sanitize sample_en)
   \<and> tsv_parts (tsv_line (sample_tabbed, sample_en)) \<noteq> [sample_tabbed, sample_en]"
  by (simp add: tsv_parts_line sanitize_clean)
    (simp add: sanitize_def replace_char_def sample_tabbed_def char_defs)

text \<open>
  C4. The conversion to JSON takes the first field of the line for the key \<open>en\<close> and the
  second for the key \<open>ja\<close>. On a line written by \<open>write_tsv\<close>, whose first field is the
  Japanese side, the record therefore holds the Japanese text under \<open>en\<close> and the other text
  under \<open>ja\<close>, the reverse of what the claim says.
\<close>

theorem json_record_swaps_sides:
  "json_record (tsv_line (sample_ja, sample_en)) = Some [(''en'', sample_ja), (''ja'', sample_en)]
   \<and> is_japanese sample_ja \<and> \<not> is_japanese sample_en"
proof -
  have "tsv_parts (tsv_line (sample_ja, sample_en)) = [sample_ja, sample_en]"
    by (simp add: tsv_parts_line sanitize_id sample_defs char_defs)
  then show ?thesis
    by (simp add: json_record_def) (simp add: sample_defs line_defs char_defs)
qed

section \<open>Block segmentation\<close>

lemma blank_run_at_Cons:
  "blank_run_at (c # t) \<longleftrightarrow> c = NL \<and> t \<noteq> [] \<and> hd t = NL"
  by (cases t) (auto simp: blank_run_at_def)

lemma no_blank_run_Cons:
  "no_blank_run (c # p) \<longleftrightarrow> \<not> blank_run_at (c # p) \<and> no_blank_run p"
  by (cases p) (auto simp: no_blank_run_def blank_run_at_def)

lemma split_blocks_no_run:
  "no_blank_run p \<Longrightarrow> split_blocks cur p = [cur @ p]"
  by (induction p arbitrary: cur) (simp_all add: no_blank_run_Cons)

lemma dropWhile_line_feeds:
  "rest = [] \<or> hd rest \<noteq> NL \<Longrightarrow> dropWhile (\<lambda>x. x = NL) (replicate n NL @ rest) = rest"
  by (induction n) (auto simp: dropWhile_eq_self_iff)

lemma split_blocks_at_run:
  assumes "no_blank_run p" and "p = [] \<or> last p \<noteq> NL" and "2 \<le> k"
    and "rest = [] \<or> hd rest \<noteq> NL"
  shows "split_blocks cur (p @ replicate k NL @ rest) = (cur @ p) # split_blocks [] rest"
  using assms(1,2)
proof (induction p arbitrary: cur)
  case Nil
  from assms(3) obtain j where k: "k = Suc (Suc j)"
    by (metis Suc_le_D numeral_2_eq_2 Suc_le_mono)
  have "dropWhile (\<lambda>x. x = NL) (replicate (Suc j) NL @ rest) = rest"
    using assms(4) by (rule dropWhile_line_feeds)
  then show ?case by (simp add: k blank_run_at_def)
next
  case (Cons c p)
  have nb: "\<not> blank_run_at (c # p)" and np: "no_blank_run p"
    using Cons.prems(1) by (simp_all add: no_blank_run_Cons)
  have "\<not> blank_run_at (c # p @ replicate k NL @ rest)"
  proof (cases p)
    case Nil
    with Cons.prems(2) show ?thesis by (simp add: blank_run_at_Cons)
  next
    case (Cons d p')
    with nb show ?thesis by (simp add: blank_run_at_Cons)
  qed
  moreover have "p = [] \<or> last p \<noteq> NL" using Cons.prems(2) by (cases p) auto
  ultimately show ?case using Cons.IH [OF np, of "cur @ [c]"] by simp
qed

lemma sep_sjis_no_cr:
  assumes "CR \<notin> set s"
  shows "sep_sjis s = (if blank_run_at s then Some (dropWhile (\<lambda>x. x = NL) (tl s)) else None)"
proof (cases s)
  case Nil
  then show ?thesis by (simp add: sep_sjis_def blank_run_at_def)
next
  case (Cons a t)
  show ?thesis
  proof (cases t)
    case Nil
    with Cons assms show ?thesis by (auto simp: sep_sjis_def blank_run_at_def)
  next
    case (Cons b u)
    with \<open>s = a # t\<close> assms show ?thesis by (auto simp: sep_sjis_def blank_run_at_def)
  qed
qed

lemma split_blocks_sjis_no_cr:
  "CR \<notin> set s \<Longrightarrow> split_blocks_sjis cur s = split_blocks cur s"
proof (induction cur s rule: split_blocks.induct)
  case (1 cur)
  show ?case by simp
next
  case (2 cur c cs)
  have s: "sep_sjis (c # cs) =
      (if blank_run_at (c # cs) then Some (dropWhile (\<lambda>x. x = NL) cs) else None)"
    using sep_sjis_no_cr [OF "2.prems"] by simp
  show ?case
  proof (cases "blank_run_at (c # cs)")
    case True
    have "CR \<notin> set (dropWhile (\<lambda>x. x = NL) cs)"
      using "2.prems" by (auto dest: set_dropWhileD)
    with "2.IH"(1) True s show ?thesis by simp
  next
    case False
    with "2.IH"(2) "2.prems" s show ?thesis by simp
  qed
qed

lemma rstrip_ends:
  "rev (dropWhile P (rev u)) = []
   \<or> (hd (rev (dropWhile P (rev u))) = hd u \<and> \<not> P (last (rev (dropWhile P (rev u)))))"
proof (cases "dropWhile P (rev u) = []")
  case True
  then show ?thesis by simp
next
  case False
  have u: "u = rev (dropWhile P (rev u)) @ rev (takeWhile P (rev u))"
    by (metis rev_append rev_rev_ident takeWhile_dropWhile_id)
  have "\<not> P (hd (dropWhile P (rev u)))" using False by (rule hd_dropWhile)
  then have "\<not> P (last (rev (dropWhile P (rev u))))" by (simp add: last_rev)
  moreover have "hd (rev (dropWhile P (rev u))) = hd u"
    using False u by (metis hd_append2 rev_is_Nil_conv)
  ultimately show ?thesis by blast
qed

lemma strip_ends:
  "strip s = [] \<or> (\<not> is_space (hd (strip s)) \<and> \<not> is_space (last (strip s)))"
proof (cases "strip s = []")
  case True
  then show ?thesis by simp
next
  case False
  then have "dropWhile is_space s \<noteq> []" unfolding strip_def by fastforce
  then have "\<not> is_space (hd (dropWhile is_space s))" by (rule hd_dropWhile)
  with False rstrip_ends [of is_space "dropWhile is_space s"] show ?thesis
    unfolding strip_def by metis
qed

lemma strip_fixed:
  assumes "s = [] \<or> (\<not> is_space (hd s) \<and> \<not> is_space (last s))"
  shows "strip s = s"
proof (cases "s = []")
  case True
  then show ?thesis by (simp add: strip_def)
next
  case False
  with assms have a: "\<not> is_space (hd s)" "\<not> is_space (last s)" by auto
  have 1: "dropWhile is_space s = s" using a(1) by (simp add: dropWhile_eq_self_iff)
  have "hd (rev s) = last s" using False by (simp add: hd_rev)
  with a(2) have 2: "dropWhile is_space (rev s) = rev s" by (simp add: dropWhile_eq_self_iff)
  show ?thesis by (simp add: strip_def 1 2)
qed

lemma strip_idem: "strip (strip s) = strip s"
  by (rule strip_fixed) (rule strip_ends)

lemma set_dropWhile_subset: "set (dropWhile P xs) \<subseteq> set xs"
  by (auto dest: set_dropWhileD)

lemma set_strip: "set (strip s) \<subseteq> set s"
proof -
  have "set (strip s) = set (dropWhile is_space (rev (dropWhile is_space s)))"
    by (simp add: strip_def)
  also have "\<dots> \<subseteq> set (rev (dropWhile is_space s))" by (rule set_dropWhile_subset)
  also have "\<dots> = set (dropWhile is_space s)" by simp
  also have "\<dots> \<subseteq> set s" by (rule set_dropWhile_subset)
  finally show ?thesis .
qed

lemma split_on_pieces:
  "sep \<notin> set cur \<Longrightarrow> \<forall>p \<in> set (split_on sep cur s). sep \<notin> set p"
  by (induction sep cur s rule: split_on.induct) auto

lemma block_lines_filter:
  "block_lines block = filter (\<lambda>l. l \<noteq> []) (map strip (split_on NL [] block))"
  by (simp add: block_lines_def filter_map comp_def)

lemma block_lines_clean:
  "\<forall>l \<in> set (block_lines block). l \<noteq> [] \<and> strip l = l \<and> NL \<notin> set l"
proof
  fix l assume "l \<in> set (block_lines block)"
  then obtain p where p: "p \<in> set (split_on NL [] block)" "l = strip p" "l \<noteq> []"
    by (auto simp: block_lines_filter)
  from p(1) split_on_pieces [of NL "[]" block] have "NL \<notin> set p" by simp
  with p(2) set_strip [of p] have "NL \<notin> set l" by auto
  with p show "l \<noteq> [] \<and> strip l = l \<and> NL \<notin> set l" by (simp add: strip_idem)
qed

text \<open>
  C5, as amended. The text is split exactly at the runs of two or more line feeds, that is
  wherever one or more empty lines stand: a text without such a run is one block, and a
  piece without such a run that is followed by a run of two or more line feeds is a block of
  its own, the rest being split in the same way. So a single empty line starts a new block.
  On a text without carriage returns the Shift-JIS script splits in the same way. Within a
  block the lines are the pieces between line feeds, stripped, the empty ones dropped, in
  order; none is empty, none has whitespace at either end.
\<close>

theorem blocks_split_at_line_feed_runs:
  "(no_blank_run p \<longrightarrow> split_blocks [] p = [p])
   \<and> (no_blank_run p \<and> (p = [] \<or> last p \<noteq> NL) \<and> 2 \<le> k \<and> (rest = [] \<or> hd rest \<noteq> NL)
        \<longrightarrow> split_blocks [] (p @ replicate k NL @ rest) = p # split_blocks [] rest)
   \<and> (CR \<notin> set content \<longrightarrow> split_blocks_sjis [] content = split_blocks [] content)
   \<and> block_lines block = filter (\<lambda>l. l \<noteq> []) (map strip (split_on NL [] block))
   \<and> (\<forall>l \<in> set (block_lines block). l \<noteq> [] \<and> strip l = l \<and> NL \<notin> set l)"
proof -
  have 1: "no_blank_run p \<longrightarrow> split_blocks [] p = [p]"
    by (simp add: split_blocks_no_run)
  have 2: "no_blank_run p \<and> (p = [] \<or> last p \<noteq> NL) \<and> 2 \<le> k \<and> (rest = [] \<or> hd rest \<noteq> NL)
        \<longrightarrow> split_blocks [] (p @ replicate k NL @ rest) = p # split_blocks [] rest"
  proof
    assume h: "no_blank_run p \<and> (p = [] \<or> last p \<noteq> NL) \<and> 2 \<le> k \<and> (rest = [] \<or> hd rest \<noteq> NL)"
    then have "split_blocks [] (p @ replicate k NL @ rest) = ([] @ p) # split_blocks [] rest"
      by (intro split_blocks_at_run) simp_all
    then show "split_blocks [] (p @ replicate k NL @ rest) = p # split_blocks [] rest"
      by simp
  qed
  have 3: "CR \<notin> set content \<longrightarrow> split_blocks_sjis [] content = split_blocks [] content"
    by (simp add: split_blocks_sjis_no_cr)
  from 1 2 3 block_lines_filter [of block] block_lines_clean [of block]
  show ?thesis by (intro conjI)
qed

lemma sample_paragraph_eval:
  "no_blank_run sample_paragraph" "last sample_paragraph \<noteq> NL" "hd sample_paragraph \<noteq> NL"
  "CR \<notin> set sample_paragraph"
  "block_lines sample_paragraph = [sample_ja, sample_en]"
  by (simp_all add: no_blank_run_def sample_paragraph_def sample_defs block_defs line_defs char_defs)

theorem blocks_split_at_line_feed_runs_witness:
  "split_blocks [] (sample_paragraph @ replicate 3 NL @ sample_paragraph)
     = [sample_paragraph, sample_paragraph]
   \<and> split_blocks_sjis [] sample_paragraph = [sample_paragraph]
   \<and> strip sample_ja = sample_ja \<and> strip sample_en = sample_en"
proof -
  note t = blocks_split_at_line_feed_runs [of sample_paragraph 3 sample_paragraph
      sample_paragraph sample_paragraph]
  have 1: "split_blocks [] (sample_paragraph @ replicate 3 NL @ sample_paragraph)
     = [sample_paragraph, sample_paragraph]
   \<and> split_blocks_sjis [] sample_paragraph = [sample_paragraph]"
    using t sample_paragraph_eval(1-4) by simp
  have "\<forall>l \<in> set (block_lines sample_paragraph). l \<noteq> [] \<and> strip l = l \<and> NL \<notin> set l"
    using t by blast
  then have 2: "\<forall>l \<in> set [sample_ja, sample_en]. l \<noteq> [] \<and> strip l = l \<and> NL \<notin> set l"
    by (simp only: sample_paragraph_eval(5))
  from 1 2 show ?thesis by simp
qed

text \<open>
  The claim as stated fails at a text of two lines with one empty line between them: the
  empty line separates two blocks, in both scripts, and the two lines, which would form a
  pair inside one block, yield none.
\<close>

theorem single_blank_line_counterexample:
  "split_blocks [] sample_single_blank = [sample_ja, sample_en]
   \<and> split_blocks_sjis [] sample_single_blank = [sample_ja, sample_en]
   \<and> extract_pairs_from_file sample_single_blank = Inr []
   \<and> extract_pairs_from_file sample_paragraph = Inr [(sample_ja, sample_en)]"
proof -
  have ja: "no_blank_run sample_ja" "last sample_ja \<noteq> NL" "CR \<notin> set sample_ja"
    and en: "no_blank_run sample_en" "hd sample_en \<noteq> NL" "CR \<notin> set sample_en"
    by (simp_all add: no_blank_run_def sample_defs char_defs)
  have 1: "split_blocks [] sample_single_blank = [sample_ja, sample_en]"
    using split_blocks_at_run [of sample_ja 2 sample_en "[]"] ja en
    by (simp add: sample_single_blank_def split_blocks_no_run numeral_2_eq_2)
  have "CR \<notin> set sample_single_blank"
    using ja en by (simp add: sample_single_blank_def NL_def CR_def)
  then have 2: "split_blocks_sjis [] sample_single_blank = [sample_ja, sample_en]"
    using 1 by (simp add: split_blocks_sjis_no_cr)
  have n1: "remove_notes (normalize_newlines sample_single_blank) = sample_single_blank"
    by (simp add: remove_notes_def normalize_newlines_def replace_char_def notes1_at_def
        notes2_at_def letter_ci_def sample_single_blank_def sample_defs char_defs)
  have n2: "remove_notes (normalize_newlines sample_paragraph) = sample_paragraph"
    by (simp add: remove_notes_def normalize_newlines_def replace_char_def notes1_at_def
        notes2_at_def letter_ci_def sample_paragraph_def sample_defs char_defs)
  have b: "extract_pairs_from_block [sample_ja] = Inr []"
    "extract_pairs_from_block [sample_en] = Inr []"
    "extract_pairs_from_block [sample_ja, sample_en] = Inr [(sample_ja, sample_en)]"
    by (simp_all add: extract_pairs_from_block_def reconcile_def
        sample_defs block_defs line_defs char_defs)
  have l: "block_lines sample_ja = [sample_ja]" "block_lines sample_en = [sample_en]"
    by (simp_all add: sample_defs block_defs line_defs char_defs)
  have 3: "extract_pairs_from_file sample_single_blank = Inr []"
    by (simp add: extract_pairs_from_file_def n1 1 l b)
  have 4: "extract_pairs_from_file sample_paragraph = Inr [(sample_ja, sample_en)]"
    by (simp add: extract_pairs_from_file_def n2 split_blocks_no_run sample_paragraph_eval b)
  from 1 2 3 4 show ?thesis by simp
qed

section \<open>Removal of the footnote section\<close>















lemmas notes_defs = remove_notes_def normalize_newlines_def replace_char_def notes1_at_def
  notes2_at_def letter_ci_def opt_char_def ws_then_nl_def sample_footnote_def
  sample_paragraph_def




text \<open>
  Two more runs: a header on the second line of the text, with only the empty first line
  before it, and a header that ends the text without a line feed. Nothing is removed in either,
  and in the first the footnote lines form a pair.
\<close>

lemma header_position_examples:
  "remove_notes (normalize_newlines sample_first_line_empty_doc) = sample_first_line_empty_doc
   \<and> extract_pairs_from_file sample_first_line_empty_doc
       = Inr [(sample_aiueo, ascii ''note text'')]
   \<and> remove_notes (normalize_newlines sample_label_at_end_doc) = sample_label_at_end_doc"
proof -
  have 1: "remove_notes (normalize_newlines sample_first_line_empty_doc)
      = sample_first_line_empty_doc"
    by (simp add: sample_first_line_empty_doc_def notes_defs sample_defs char_defs)
  have 2: "remove_notes (normalize_newlines sample_label_at_end_doc) = sample_label_at_end_doc"
    by (simp add: sample_label_at_end_doc_def notes_defs sample_defs char_defs)
  have n: "no_blank_run sample_first_line_empty_doc"
    by (simp add: no_blank_run_def sample_first_line_empty_doc_def sample_footnote_def
        sample_defs char_defs)
  have 3: "block_lines sample_first_line_empty_doc
      = [[CHU, FWCOLON], sample_aiueo, ascii ''note text'']"
    by (simp add: sample_first_line_empty_doc_def sample_footnote_def sample_defs block_defs
        line_defs char_defs)
  have 4: "extract_pairs_from_block [[CHU, FWCOLON], sample_aiueo, ascii ''note text'']
       = Inr [(sample_aiueo, ascii ''note text'')]"
    by (simp add: extract_pairs_from_block_def reconcile_def
        sample_defs block_defs line_defs char_defs)
  have "extract_pairs_from_file sample_first_line_empty_doc
       = Inr [(sample_aiueo, ascii ''note text'')]"
    by (simp add: extract_pairs_from_file_def 1 split_blocks_no_run n 3 4)
  with 1 2 show ?thesis by simp
qed


end
